theory Spec2Isabelle
  imports Main "HOL-Library.List_Lexorder" "HOL-Library.Char_ord"
begin

section \<open>The file selection tree of TorrentAddingDialog\<close>

text \<open>
  The dialog shows the files of a torrent as a tree of checkable items. A
  \<open>FileTreeNode\<close> is either a \<open>FileInfo\<close> (of which only the length is read here) or a
  dictionary from names to nodes. Every tree item carries its text, its check state in
  column 0, the length of its file when it stands for a \<open>FileInfo\<close>, and its children.
  An item is addressed by the list of child indices leading to it from the top-level
  item; the \<open>parent()\<close> chain of the source is that path read backwards.
\<close>

datatype CheckState = Unchecked | PartiallyChecked | Checked

datatype FileTreeNode = FileInfo nat | Directory "(string \<times> FileTreeNode) list"

datatype item =
  Item (item_text: string) (checkState: CheckState) (file_info: "nat option") (children: "item list")

text \<open>\<open>_traverse_file_tree\<close>: every item is created checked; a file item gets no children.\<close>

fun traverse_file_tree :: "string \<Rightarrow> FileTreeNode \<Rightarrow> item" where
  "traverse_file_tree name (FileInfo len) = Item name Checked (Some len) []"
| "traverse_file_tree name (Directory entries) =
     Item name Checked None (map (\<lambda>(name, child). traverse_file_tree name child) entries)"

text \<open>\<open>item.setCheckState(0, check_state)\<close>\<close>

fun setCheckState :: "item \<Rightarrow> CheckState \<Rightarrow> item" where
  "setCheckState (Item name st f cs) check_state = Item name check_state f cs"

text \<open>\<open>_set_check_state_to_tree\<close>: the item itself is left alone, every child is set and
  then visited.\<close>

function set_check_state_to_tree :: "item \<Rightarrow> CheckState \<Rightarrow> item" where
  "set_check_state_to_tree (Item name st f cs) check_state =
     Item name st f
       (map (\<lambda>child. set_check_state_to_tree (setCheckState child check_state) check_state) cs)"
  by pat_completeness auto
termination
proof (relation "measure (\<lambda>(it, s). size it)")
  fix name st f cs check_state and child :: item
  assume "child \<in> set cs"
  then have "size child < Suc (size_list size cs)"
    by (simp add: less_Suc_eq_le size_list_estimation')
  moreover have "size (setCheckState child check_state) = size child"
    by (cases child) simp
  ultimately show "((setCheckState child check_state, check_state), Item name st f cs, check_state)
      \<in> measure (\<lambda>(it, s). size it)"
    by simp
qed simp

text \<open>The inner \<open>for\<close> loop of \<open>_update_checkboxes\<close> over the children of an ancestor,
  with its three flags.\<close>

fun children_flags :: "item list \<Rightarrow> bool \<times> bool \<times> bool \<Rightarrow> bool \<times> bool \<times> bool" where
  "children_flags [] flags = flags"
| "children_flags (child # rest) (has_checked, has_partially, has_unchecked) =
     (if checkState child = Checked
        then children_flags rest (True, has_partially, has_unchecked)
      else if checkState child = PartiallyChecked
        then children_flags rest (has_checked, True, has_unchecked)
      else children_flags rest (has_checked, has_partially, True))"

definition new_state :: "item list \<Rightarrow> CheckState" where
  "new_state cs =
     (case children_flags cs (False, False, False) of
        (has_checked_children, has_partially_checked_children, has_unchecked_children) \<Rightarrow>
          if \<not> has_partially_checked_children \<and> \<not> has_unchecked_children then Checked
          else if has_checked_children \<or> has_partially_checked_children then PartiallyChecked
          else Unchecked)"

text \<open>
  The body of \<open>_update_checkboxes\<close> for column 0, on the item at \<open>path\<close>: the state of the
  clicked item is pushed down its subtree, then every ancestor is recomputed from its
  children, the nearest ancestor first. The signal only ever delivers an item of the
  tree; a path that names no item leaves the tree as it is.
\<close>

fun update_checkboxes_at :: "item \<Rightarrow> nat list \<Rightarrow> item" where
  "update_checkboxes_at it [] = set_check_state_to_tree it (checkState it)"
| "update_checkboxes_at (Item name st f cs) (i # path) =
     (if i < length cs
      then let cs' = cs[i := update_checkboxes_at (cs ! i) path]
           in Item name (new_state cs') f cs'
      else Item name st f cs)"

definition update_checkboxes :: "item \<Rightarrow> nat list \<Rightarrow> int \<Rightarrow> item" where
  "update_checkboxes t path column = (if column \<noteq> 0 then t else update_checkboxes_at t path)"

text \<open>
  The toolkit sets the check state of the clicked item before it emits
  \<open>itemClicked\<close>; \<open>set_state_at\<close> is that step, and \<open>item_clicked\<close> is the whole
  operation: the new state lands on the item and the slot runs for column 0. A click on
  the label leaves the state as it was, which is \<open>item_clicked\<close> with the current state.
\<close>

fun set_state_at :: "item \<Rightarrow> nat list \<Rightarrow> CheckState \<Rightarrow> item" where
  "set_state_at it [] s = setCheckState it s"
| "set_state_at (Item name st f cs) (i # path) s =
     (if i < length cs then Item name st f (cs[i := set_state_at (cs ! i) path s])
      else Item name st f cs)"

definition item_clicked :: "item \<Rightarrow> nat list \<Rightarrow> CheckState \<Rightarrow> item" where
  "item_clicked t path s = update_checkboxes (set_state_at t path s) path 0"

fun clicks :: "item \<Rightarrow> (nat list \<times> CheckState) list \<Rightarrow> item" where
  "clicks t [] = t"
| "clicks t ((path, s) # ops) = clicks (item_clicked t path s) ops"

fun item_at :: "item \<Rightarrow> nat list \<Rightarrow> item option" where
  "item_at it [] = Some it"
| "item_at (Item name st f cs) (i # path) = (if i < length cs then item_at (cs ! i) path else None)"

text \<open>
  The rule of the data model, in its own words: checked iff all children are checked,
  unchecked iff all children are unchecked, partial otherwise.
\<close>

definition pure_rule :: "CheckState \<Rightarrow> item list \<Rightarrow> bool" where
  "pure_rule st cs =
     (((st = Checked) = list_all (\<lambda>c. checkState c = Checked) cs) \<and>
      ((st = Unchecked) = list_all (\<lambda>c. checkState c = Unchecked) cs) \<and>
      ((st = PartiallyChecked) =
         (\<not> list_all (\<lambda>c. checkState c = Checked) cs \<and>
          \<not> list_all (\<lambda>c. checkState c = Unchecked) cs)))"

text \<open>
  A file tree is built from the paths of the files of a torrent, so a directory in it
  holds at least one entry.
\<close>

fun has_entries :: "FileTreeNode \<Rightarrow> bool" where
  "has_entries (FileInfo len) = True"
| "has_entries (Directory entries) =
     (entries \<noteq> [] \<and> list_all (\<lambda>(name, child). has_entries child) entries)"

text \<open>The rule at every directory item (an item that stands for no file).\<close>

fun interiors_derived :: "item \<Rightarrow> bool" where
  "interiors_derived (Item name st f cs) =
     ((f = None \<longrightarrow> pure_rule st cs) \<and> list_all interiors_derived cs)"

text \<open>The rule at every item that has at least one child.\<close>

fun consistent :: "item \<Rightarrow> bool" where
  "consistent (Item name st f cs) =
     ((cs \<noteq> [] \<longrightarrow> pure_rule st cs) \<and> list_all consistent cs)"

text \<open>The whole subtree of an item forced to one state.\<close>

fun fill :: "CheckState \<Rightarrow> item \<Rightarrow> item" where
  "fill s (Item name st f cs) = Item name s f (map (fill s) cs)"

text \<open>
  \<open>_file_items\<close> and \<open>_update_selection_label\<close>. The source keeps references to the file
  items, in the order of the traversal; read through the current tree this is the list
  of the file items with their lengths and present states. The label is given by its
  two format arguments, the size before \<open>humanize_size\<close>.
\<close>

fun file_items :: "item \<Rightarrow> (nat \<times> CheckState) list" where
  "file_items (Item name st f cs) =
     (case f of Some len \<Rightarrow> [(len, st)] | None \<Rightarrow> concat (map file_items cs))"

fun selected_totals :: "(nat \<times> CheckState) list \<Rightarrow> nat \<times> nat \<Rightarrow> nat \<times> nat" where
  "selected_totals [] acc = acc"
| "selected_totals ((len, st) # rest) (selected_file_count, selected_size) =
     (if st = Checked then selected_totals rest (selected_file_count + 1, selected_size + len)
      else selected_totals rest (selected_file_count, selected_size))"

definition selectedLeaves :: "item \<Rightarrow> nat \<times> nat" where
  "selectedLeaves t = selected_totals (file_items t) (0, 0)"

datatype selection_label = Nothing_to_download | Selected_files nat nat

definition update_selection_label :: "item \<Rightarrow> bool \<times> selection_label" where
  "update_selection_label t =
     (case selectedLeaves t of (selected_file_count, selected_size) \<Rightarrow>
        if selected_file_count = 0 then (False, Nothing_to_download)
        else (True, Selected_files selected_file_count selected_size))"

definition example_tree :: FileTreeNode where
  "example_tree =
     Directory [(''a.txt'', FileInfo 100),
                (''dir'', Directory [(''b.txt'', FileInfo 200), (''c.txt'', FileInfo 50)])]"


section \<open>The torrent list of MainWindow\<close>

text \<open>
  Exceptions are values; \<open>str\<close> is the text a message box shows for one. A
  \<open>TorrentState\<close> is read here for its info hash, its suggested name and its paused
  flag; what \<open>TorrentListWidgetItem._update\<close> writes into labels and the progress bar is
  display only and left out, as are icons and size hints.
\<close>

datatype exn =
  is_ValueError: ValueError string
| KeyError string
| AttributeError string
| is_RuntimeError: RuntimeError string
| OtherException string

fun str :: "exn \<Rightarrow> string" where
  "str (ValueError m) = m"
| "str (KeyError m) = m"
| "str (AttributeError m) = m"
| "str (RuntimeError m) = m"
| "str (OtherException m) = m"

record TorrentState =
  info_hash :: string
  suggested_name :: string
  paused :: bool

record TorrentListWidgetItem =
  state :: TorrentState
  waiting_control_action :: bool

text \<open>
  A \<open>QListWidgetItem\<close> is an object: \<open>ident\<close> is its identity, \<open>data\<close> what
  \<open>setData(Qt.UserRole, ...)\<close> stored, \<open>itemWidget\<close> the widget set for it.
  \<open>_torrent_to_item\<close> maps an info hash to the identity of an item.
\<close>

record QListWidgetItem =
  ident :: nat
  data :: string
  isSelected :: bool
  itemWidget :: TorrentListWidgetItem

record MainWindow =
  list_widget :: "QListWidgetItem list"
  torrent_to_item :: "string \<rightharpoonup> nat"
  pause_action_enabled :: bool
  resume_action_enabled :: bool
  remove_action_enabled :: bool
  critical_messages :: "(string \<times> string) list"
  last_torrent_dir :: "string option"
  allocated :: nat

definition selectedItems :: "MainWindow \<Rightarrow> QListWidgetItem list" where
  "selectedItems w = filter isSelected (list_widget w)"

text \<open>\<open>_update_control_action_state\<close>\<close>

fun control_action_flags ::
  "QListWidgetItem list \<Rightarrow> bool \<times> bool \<times> bool \<Rightarrow> bool \<times> bool \<times> bool" where
  "control_action_flags [] flags = flags"
| "control_action_flags (item # rest) (pause, resume, remove) =
     (if waiting_control_action (itemWidget item)
        then control_action_flags rest (pause, resume, remove)
      else if paused (state (itemWidget item))
        then control_action_flags rest (pause, True, True)
      else control_action_flags rest (True, resume, True))"

definition update_control_action_state :: "MainWindow \<Rightarrow> MainWindow" where
  "update_control_action_state w =
     (case control_action_flags (selectedItems w) (False, False, False) of
        (pause, resume, remove) \<Rightarrow>
          w\<lparr>pause_action_enabled := pause, resume_action_enabled := resume,
            remove_action_enabled := remove\<rparr>)"

text \<open>\<open>_error_happened\<close>: \<open>QMessageBox.critical(self, description, str(err))\<close>\<close>

definition error_happened :: "MainWindow \<Rightarrow> string \<Rightarrow> exn \<Rightarrow> MainWindow" where
  "error_happened w description err =
     w\<lparr>critical_messages := critical_messages w @ [(description, str err)]\<rparr>"

text \<open>
  \<open>_add_torrent_item\<close>. The scan stops at the first item whose name is greater than
  the new one; \<open>insertItem\<close> puts the new item at that row.
\<close>

fun items_upper :: "QListWidgetItem list \<Rightarrow> string \<Rightarrow> nat" where
  "items_upper [] name = 0"
| "items_upper (prev_item # rest) name =
     (if suggested_name (state (itemWidget prev_item)) > name then 0
      else Suc (items_upper rest name))"

definition insertItem :: "nat \<Rightarrow> 'a \<Rightarrow> 'a list \<Rightarrow> 'a list" where
  "insertItem row x xs = take row xs @ x # drop row xs"

definition add_torrent_item :: "MainWindow \<Rightarrow> TorrentState \<Rightarrow> MainWindow" where
  "add_torrent_item w st =
     (let widget = \<lparr>state = st, waiting_control_action = False\<rparr>;
          item = \<lparr>ident = allocated w, data = info_hash st, isSelected = False,
                  itemWidget = widget\<rparr>
      in w\<lparr>list_widget :=
              insertItem (items_upper (list_widget w) (suggested_name st)) item (list_widget w),
            torrent_to_item := (torrent_to_item w)(info_hash st \<mapsto> ident item),
            allocated := Suc (allocated w)\<rparr>)"

text \<open>
  \<open>_update_torrent_item\<close>. An info hash that is not a key returns at once. The widget
  is the one of the item the dictionary names; were that item not in the list,
  \<open>itemWidget\<close> would give \<open>None\<close> and reading its state would raise.
\<close>

definition set_widget :: "nat \<Rightarrow> TorrentListWidgetItem \<Rightarrow> QListWidgetItem \<Rightarrow> QListWidgetItem" where
  "set_widget i widget item = (if ident item = i then item\<lparr>itemWidget := widget\<rparr> else item)"

definition update_torrent_item :: "MainWindow \<Rightarrow> TorrentState \<Rightarrow> exn + MainWindow" where
  "update_torrent_item w st =
     (case torrent_to_item w (info_hash st) of
        None \<Rightarrow> Inr w
      | Some i \<Rightarrow>
          (case find (\<lambda>item. ident item = i) (list_widget w) of
             None \<Rightarrow> Inl (AttributeError ''state'')
           | Some item \<Rightarrow>
               let widget = itemWidget item;
                   widget1 = (if paused (state widget) \<noteq> paused st
                              then widget\<lparr>waiting_control_action := False\<rparr> else widget);
                   widget2 = widget1\<lparr>state := st\<rparr>
               in Inr (update_control_action_state
                         (w\<lparr>list_widget := map (set_widget i widget2) (list_widget w)\<rparr>))))"

text \<open>
  \<open>_remove_torrent_item\<close>. The dictionary lookup raises \<open>KeyError\<close> for an absent info
  hash. \<open>row\<close> is -1 for an item that is not in the list, and \<open>takeItem\<close> takes nothing
  at a row out of range.
\<close>

fun row :: "QListWidgetItem list \<Rightarrow> nat \<Rightarrow> int" where
  "row [] i = - 1"
| "row (item # rest) i =
     (if ident item = i then 0 else if row rest i < 0 then - 1 else row rest i + 1)"

definition takeItem :: "int \<Rightarrow> 'a list \<Rightarrow> 'a list" where
  "takeItem r xs =
     (if 0 \<le> r \<and> r < int (length xs) then take (nat r) xs @ drop (Suc (nat r)) xs else xs)"

definition remove_torrent_item :: "MainWindow \<Rightarrow> string \<Rightarrow> exn + MainWindow" where
  "remove_torrent_item w h =
     (case torrent_to_item w h of
        None \<Rightarrow> Inl (KeyError h)
      | Some i \<Rightarrow>
          Inr (update_control_action_state
                 (w\<lparr>list_widget := takeItem (row (list_widget w) i) (list_widget w),
                    torrent_to_item := (torrent_to_item w)(h := None)\<rparr>)))"

text \<open>
  \<open>_invoke_control_action\<close>. An engine action either raises, returns a plain value, or
  returns a coroutine whose awaiting raises or completes. The result is what the
  coroutine of \<open>_invoke_control_action\<close> ends with: \<open>Inl\<close> the exception that leaves it.
\<close>

datatype action_result = Raises exn | Returns | Coroutine "exn option"

definition invoke_control_action :: "(string \<Rightarrow> action_result) \<Rightarrow> string \<Rightarrow> exn + unit" where
  "invoke_control_action action h =
     (case action h of
        Raises e \<Rightarrow> if is_ValueError e then Inr () else Inl e
      | Returns \<Rightarrow> Inr ()
      | Coroutine None \<Rightarrow> Inr ()
      | Coroutine (Some e) \<Rightarrow> if is_ValueError e then Inr () else Inl e)"

text \<open>
  \<open>_control_action_triggered\<close>. The loop visits the selected items; it is written as
  one pass over the list that leaves the unselected items alone. Each submission is
  listed with the info hash and the outcome of its coroutine: this is what goes to the
  loop thread. The future that \<open>run_coroutine_threadsafe\<close> returns is not kept by the
  source, so the window that comes back is all the foreground has.
\<close>

fun submit_selected ::
  "(string \<Rightarrow> action_result) \<Rightarrow> QListWidgetItem list
     \<Rightarrow> QListWidgetItem list \<times> (string \<times> (exn + unit)) list" where
  "submit_selected action [] = ([], [])"
| "submit_selected action (item # rest) =
     (case submit_selected action rest of
        (rest', futures) \<Rightarrow>
          if isSelected item \<and> \<not> waiting_control_action (itemWidget item)
          then (item\<lparr>itemWidget := (itemWidget item)\<lparr>waiting_control_action := True\<rparr>\<rparr> # rest',
                (data item, invoke_control_action action (data item)) # futures)
          else (item # rest', futures))"

definition control_action_triggered ::
  "MainWindow \<Rightarrow> (string \<Rightarrow> action_result) \<Rightarrow> MainWindow \<times> (string \<times> (exn + unit)) list" where
  "control_action_triggered w action =
     (case submit_selected action (list_widget w) of
        (items, futures) \<Rightarrow> (update_control_action_state (w\<lparr>list_widget := items\<rparr>), futures))"

text \<open>
  \<open>add_torrent_files\<close>. \<open>TorrentInfo.from_file\<close> is not part of these sources: it is a
  parameter that gives the info hash of the torrent in a file or the exception it
  raises, as is the directory \<open>os.path.abspath(os.path.dirname(path))\<close>. The second
  component lists the paths for which a \<open>TorrentAddingDialog\<close> is opened. What the
  engine reports while a dialog is open arrives through the other slots.
\<close>

definition failed_to_add :: "string \<Rightarrow> string" where
  "failed_to_add path = ''Failed to add \"'' @ path @ ''\"''"

fun add_torrent_files ::
  "(string \<Rightarrow> exn + string) \<Rightarrow> (string \<Rightarrow> string) \<Rightarrow> MainWindow \<Rightarrow> string list
     \<Rightarrow> MainWindow \<times> string list" where
  "add_torrent_files from_file abs_dirname w [] = (w, [])"
| "add_torrent_files from_file abs_dirname w (path # paths) =
     (case from_file path of
        Inl err \<Rightarrow>
          add_torrent_files from_file abs_dirname (error_happened w (failed_to_add path) err) paths
      | Inr h \<Rightarrow>
          let w1 = w\<lparr>last_torrent_dir := Some (abs_dirname path)\<rparr>
          in if torrent_to_item w1 h \<noteq> None
             then add_torrent_files from_file abs_dirname
                    (error_happened w1 (failed_to_add path)
                       (ValueError ''This torrent is already added'')) paths
             else (case add_torrent_files from_file abs_dirname w1 paths of
                     (w', dialogs) \<Rightarrow> (w', path # dialogs)))"

text \<open>
  Insertions and removals as the engine reports them, one after the other. A removal
  that raises ends the run with the window as it is then.
\<close>

datatype list_op = Insert TorrentState | Remove string

fun run_ops :: "MainWindow \<Rightarrow> list_op list \<Rightarrow> MainWindow \<times> exn option" where
  "run_ops w [] = (w, None)"
| "run_ops w (Insert st # ops) = run_ops (add_torrent_item w st) ops"
| "run_ops w (Remove h # ops) =
     (case remove_torrent_item w h of Inl e \<Rightarrow> (w, Some e) | Inr w' \<Rightarrow> run_ops w' ops)"

text \<open>The sort key of an item is the name its widget shows now.\<close>

abbreviation sort_key :: "QListWidgetItem \<Rightarrow> string" where
  "sort_key item \<equiv> suggested_name (state (itemWidget item))"

definition sort_keys :: "MainWindow \<Rightarrow> string list" where
  "sort_keys w = map sort_key (list_widget w)"

text \<open>The widget of a torrent, as \<open>itemWidget(self._torrent_to_item[info_hash])\<close> finds it.\<close>

definition widget_of :: "MainWindow \<Rightarrow> string \<Rightarrow> TorrentListWidgetItem option" where
  "widget_of w h =
     (case torrent_to_item w h of
        None \<Rightarrow> None
      | Some i \<Rightarrow> map_option itemWidget (find (\<lambda>item. ident item = i) (list_widget w)))"

text \<open>The window when it is created: no torrents, the three actions disabled.\<close>

definition new_window :: MainWindow where
  "new_window =
     \<lparr>list_widget = [], torrent_to_item = Map.empty, pause_action_enabled = False,
      resume_action_enabled = False, remove_action_enabled = False, critical_messages = [],
      last_torrent_dir = None, allocated = 0\<rparr>"


text \<open>
  The user selects the item at a row: the toolkit marks it and emits
  \<open>itemSelectionChanged\<close>, which is connected to \<open>_update_control_action_state\<close>.
\<close>

definition select_row :: "nat \<Rightarrow> MainWindow \<Rightarrow> MainWindow" where
  "select_row r w =
     update_control_action_state
       (w\<lparr>list_widget := (list_widget w)[r := (list_widget w ! r)\<lparr>isSelected := True\<rparr>]\<rparr>)"

text \<open>A window with one torrent, running and selected; two engine actions.\<close>

definition ubuntu :: TorrentState where
  "ubuntu = \<lparr>info_hash = ''h1'', suggested_name = ''ubuntu.iso'', paused = False\<rparr>"

definition example_window :: MainWindow where
  "example_window = select_row 0 (add_torrent_item new_window ubuntu)"

definition action_returns :: "string \<Rightarrow> action_result" where
  "action_returns h = Returns"

definition action_fails :: "string \<Rightarrow> action_result" where
  "action_fails h = Raises (RuntimeError ''engine failure'')"


section \<open>ControlManagerThread.stop and main\<close>



datatype loop_call = control_server_stop | control_stop

definition async_stop :: "loop_call set" where
  "async_stop = {control_server_stop, control_stop}"



text \<open>
  \<open>find_another_daemon\<close> and \<open>main\<close>. \<open>ControlClient\<close> is not part of these sources: the
  environment says whether entering it raises and whether \<open>execute\<close> raises, and what
  \<open>app.exec_()\<close> returns. \<open>main\<close> is given by the steps it takes, in order, and by how
  the process ends.
\<close>

record environment =
  connect :: "exn option"
  execute :: "string list \<Rightarrow> exn option"
  exec_result :: int

record arguments =
  debug :: bool
  filenames :: "string list"

datatype step =
  logging_disabled
| QApplication_created
| ControlManagerThread_created
| MainWindow_shown
| control_thread_started
| lastWindowClosed_connected
| ControlClient_entered
| suggest_torrents_sent "string list"
| app_exec

datatype ending = sys_exit int | uncaught exn

definition find_another_daemon :: "environment \<Rightarrow> string list \<Rightarrow> step list \<times> (exn + bool)" where
  "find_another_daemon env names =
     (case connect env of
        Some e \<Rightarrow> ([], if is_RuntimeError e then Inr False else Inl e)
      | None \<Rightarrow>
          if names \<noteq> [] then
            (case execute env names of
               Some e \<Rightarrow> ([ControlClient_entered], if is_RuntimeError e then Inr False else Inl e)
             | None \<Rightarrow> ([ControlClient_entered, suggest_torrents_sent names], Inr True))
          else ([ControlClient_entered], Inr True))"

definition main :: "environment \<Rightarrow> arguments \<Rightarrow> step list \<times> ending" where
  "main env args =
     (let startup =
            (if \<not> debug args then [logging_disabled] else []) @
            [QApplication_created, ControlManagerThread_created, MainWindow_shown,
             control_thread_started, lastWindowClosed_connected]
      in if filenames args \<noteq> [] then
           (case find_another_daemon env (filenames args) of
              (probe, Inl e) \<Rightarrow> (startup @ probe, uncaught e)
            | (probe, Inr found) \<Rightarrow> (startup @ probe @ [app_exec], sys_exit (exec_result env)))
         else (startup @ [app_exec], sys_exit (exec_result env)))"

section \<open>Propagation keeps the rule\<close>

lemma children_flags_eq:
  "children_flags cs (a, b, c) =
     (a \<or> (\<exists>x \<in> set cs. checkState x = Checked),
      b \<or> (\<exists>x \<in> set cs. checkState x = PartiallyChecked),
      c \<or> (\<exists>x \<in> set cs. checkState x = Unchecked))"
proof (induction cs arbitrary: a b c)
  case Nil
  then show ?case by simp
next
  case (Cons x xs)
  then show ?case by (cases "checkState x") auto
qed

lemma new_state_cases:
  "new_state cs =
     (if \<forall>x \<in> set cs. checkState x = Checked then Checked
      else if \<forall>x \<in> set cs. checkState x = Unchecked then Unchecked
      else PartiallyChecked)"
proof -
  have three: "checkState x = Checked \<or> checkState x = PartiallyChecked \<or> checkState x = Unchecked"
    for x
    by (cases "checkState x") simp_all
  have all_checked: "(\<forall>x \<in> set cs. checkState x = Checked) =
      (\<not> (\<exists>x \<in> set cs. checkState x = PartiallyChecked) \<and>
       \<not> (\<exists>x \<in> set cs. checkState x = Unchecked))"
    using three by fastforce
  have all_unchecked: "(\<forall>x \<in> set cs. checkState x = Unchecked) =
      (\<not> (\<exists>x \<in> set cs. checkState x = Checked) \<and>
       \<not> (\<exists>x \<in> set cs. checkState x = PartiallyChecked))"
    using three by fastforce
  show ?thesis
    unfolding new_state_def children_flags_eq all_checked all_unchecked
    by simp
qed

lemma new_state_rule: "cs \<noteq> [] \<Longrightarrow> pure_rule (new_state cs) cs"
  by (cases cs) (auto simp: pure_rule_def new_state_cases list_all_iff)

lemma pure_rule_new_state: "cs \<noteq> [] \<Longrightarrow> pure_rule st cs \<Longrightarrow> new_state cs = st"
  by (cases st) (auto simp: pure_rule_def new_state_cases list_all_iff)

lemma set_check_state_to_tree_fill:
  "set_check_state_to_tree (setCheckState c s) s = fill s c"
proof (induction c)
  case (Item name st f cs)
  then show ?case by simp
qed

lemma checkState_fill: "checkState (fill s c) = s"
  by (cases c) simp

lemma consistent_fill: "consistent (fill s c)"
proof (induction c)
  case (Item name st f cs)
  have "cs \<noteq> [] \<Longrightarrow> pure_rule s (map (fill s) cs)"
    by (cases cs; cases s) (auto simp: pure_rule_def list_all_iff checkState_fill)
  with Item show ?case by (simp add: list_all_iff)
qed

lemma item_clicked_Nil: "item_clicked t [] s = fill s t"
  by (cases t) (simp add: item_clicked_def update_checkboxes_def set_check_state_to_tree_fill)

lemma item_clicked_Cons:
  "item_clicked (Item name st f cs) (i # path) s =
     (if i < length cs
      then Item name (new_state (cs[i := item_clicked (cs ! i) path s])) f
             (cs[i := item_clicked (cs ! i) path s])
      else Item name st f cs)"
  by (simp add: item_clicked_def update_checkboxes_def Let_def)

lemma consistent_item_clicked: "consistent t \<Longrightarrow> consistent (item_clicked t path s)"
proof (induction path arbitrary: t)
  case Nil
  then show ?case by (simp add: item_clicked_Nil consistent_fill)
next
  case (Cons i path)
  obtain name st f cs where t: "t = Item name st f cs" by (cases t)
  show ?case
  proof (cases "i < length cs")
    case False
    with Cons.prems t show ?thesis by (simp add: item_clicked_Cons)
  next
    case True
    let ?cs = "cs[i := item_clicked (cs ! i) path s]"
    from Cons.prems t have all: "list_all consistent cs" by simp
    with True have "consistent (cs ! i)" by (simp add: list_all_length)
    then have "consistent (item_clicked (cs ! i) path s)" by (rule Cons.IH)
    with all have "list_all consistent ?cs"
      using set_update_subset_insert [of cs i] by (auto simp: list_all_iff)
    moreover from True have "?cs \<noteq> []" by auto
    then have "pure_rule (new_state ?cs) ?cs" by (rule new_state_rule)
    ultimately show ?thesis using True t by (simp add: item_clicked_Cons)
  qed
qed

lemma consistent_clicks: "consistent t \<Longrightarrow> consistent (clicks t ops)"
  by (induction t ops rule: clicks.induct) (simp_all add: consistent_item_clicked)

lemma consistent_traverse_file_tree: "consistent (traverse_file_tree name node)"
proof (induction name node rule: traverse_file_tree.induct)
  case (1 name len)
  then show ?case by simp
next
  case (2 name entries)
  then have "list_all consistent (map (\<lambda>(name, child). traverse_file_tree name child) entries)"
    by (auto simp: list_all_iff)
  moreover have "entries \<noteq> [] \<Longrightarrow>
      pure_rule Checked (map (\<lambda>(name, child). traverse_file_tree name child) entries)"
  proof -
    have "checkState (traverse_file_tree n c) = Checked" for n c
      by (cases c) simp_all
    then show "entries \<noteq> [] \<Longrightarrow> ?thesis"
      by (cases entries) (auto simp: pure_rule_def list_all_iff)
  qed
  ultimately show ?case by simp
qed

lemma pure_rule_Nil: "\<not> pure_rule st []"
  by (cases st) (simp_all add: pure_rule_def)

lemma pure_rule_fill: "cs \<noteq> [] \<Longrightarrow> pure_rule s (map (fill s) cs)"
  by (cases cs; cases s) (auto simp: pure_rule_def list_all_iff checkState_fill)

lemma interiors_derived_fill: "interiors_derived t \<Longrightarrow> interiors_derived (fill s t)"
proof (induction t)
  case (Item name st f cs)
  have "pure_rule s (map (fill s) cs)" if "f = None"
  proof -
    from that Item.prems have "pure_rule st cs" by simp
    then have "cs \<noteq> []" using pure_rule_Nil by auto
    then show ?thesis by (rule pure_rule_fill)
  qed
  moreover from Item have "list_all interiors_derived (map (fill s) cs)"
    by (simp add: list_all_iff)
  ultimately show ?case by simp
qed

lemma interiors_derived_item_clicked:
  "interiors_derived t \<Longrightarrow> interiors_derived (item_clicked t path s)"
proof (induction path arbitrary: t)
  case Nil
  then show ?case by (simp add: item_clicked_Nil interiors_derived_fill)
next
  case (Cons i path)
  obtain name st f cs where t: "t = Item name st f cs" by (cases t)
  show ?case
  proof (cases "i < length cs")
    case False
    with Cons.prems t show ?thesis by (simp add: item_clicked_Cons)
  next
    case True
    let ?cs = "cs[i := item_clicked (cs ! i) path s]"
    from Cons.prems t have all: "list_all interiors_derived cs" by simp
    with True have "interiors_derived (cs ! i)" by (simp add: list_all_length)
    then have "interiors_derived (item_clicked (cs ! i) path s)" by (rule Cons.IH)
    with all have "list_all interiors_derived ?cs"
      using set_update_subset_insert [of cs i] by (auto simp: list_all_iff)
    moreover from True have "?cs \<noteq> []" by auto
    then have "pure_rule (new_state ?cs) ?cs" by (rule new_state_rule)
    ultimately show ?thesis using True t by (simp add: item_clicked_Cons)
  qed
qed

lemma interiors_derived_clicks: "interiors_derived t \<Longrightarrow> interiors_derived (clicks t ops)"
  by (induction t ops rule: clicks.induct) (simp_all add: interiors_derived_item_clicked)

lemma checkState_traverse_file_tree: "checkState (traverse_file_tree name node) = Checked"
  by (cases node) simp_all

lemma interiors_derived_traverse_file_tree:
  "has_entries node \<Longrightarrow> interiors_derived (traverse_file_tree name node)"
proof (induction name node rule: traverse_file_tree.induct)
  case (1 name len)
  then show ?case by simp
next
  case (2 name entries)
  let ?cs = "map (\<lambda>(name, child). traverse_file_tree name child) entries"
  from 2 have "list_all interiors_derived ?cs"
    by (auto simp: list_all_iff)
  moreover from "2.prems" have "entries \<noteq> []" by simp
  then have "pure_rule Checked ?cs"
    by (cases entries) (auto simp: pure_rule_def list_all_iff checkState_traverse_file_tree)
  ultimately show ?case by simp
qed

lemma fill_fill: "fill s (fill s' t) = fill s t"
  by (induction t) simp

lemma fill_Unchecked_id: "consistent t \<Longrightarrow> checkState t = Unchecked \<Longrightarrow> fill Unchecked t = t"
proof (induction t)
  case (Item name st f cs)
  have "fill Unchecked c = c" if "c \<in> set cs" for c
  proof -
    from that have "cs \<noteq> []" by auto
    with Item.prems have "pure_rule Unchecked cs" by simp
    with that have "checkState c = Unchecked" by (simp add: pure_rule_def list_all_iff)
    moreover from Item.prems that have "consistent c" by (simp add: list_all_iff)
    ultimately show ?thesis using Item.IH that by blast
  qed
  then have "map (fill Unchecked) cs = cs" by (simp add: map_idI)
  with Item.prems show ?case by simp
qed

lemma check_uncheck_restores:
  "consistent t \<Longrightarrow> map_option checkState (item_at t path) = Some Unchecked
     \<Longrightarrow> item_clicked (item_clicked t path Checked) path Unchecked = t"
proof (induction path arbitrary: t)
  case Nil
  then show ?case by (simp add: item_clicked_Nil fill_fill fill_Unchecked_id)
next
  case (Cons i path)
  obtain name st f cs where t: "t = Item name st f cs" by (cases t)
  from Cons.prems t have i: "i < length cs" by (simp split: if_splits)
  with Cons.prems t have "consistent (cs ! i)"
    and "map_option checkState (item_at (cs ! i) path) = Some Unchecked"
    by (simp_all add: list_all_length)
  then have "item_clicked (item_clicked (cs ! i) path Checked) path Unchecked = cs ! i"
    by (rule Cons.IH)
  moreover from i Cons.prems t have "new_state cs = st"
    by (intro pure_rule_new_state) auto
  ultimately show ?case using i t by (simp add: item_clicked_Cons)
qed

lemma selected_totals_eq:
  "selected_totals xs (n, m) =
     (n + length (filter (\<lambda>(len, st). st = Checked) xs),
      m + sum_list (map fst (filter (\<lambda>(len, st). st = Checked) xs)))"
  by (induction xs "(n, m)" arbitrary: n m rule: selected_totals.induct) auto



section \<open>The torrent list: lemmas\<close>

lemma update_control_action_state_fields [simp]:
  "list_widget (update_control_action_state w) = list_widget w"
  "torrent_to_item (update_control_action_state w) = torrent_to_item w"
  "critical_messages (update_control_action_state w) = critical_messages w"
  by (simp_all add: update_control_action_state_def split: prod.splits)

lemma sort_keys_update_control_action_state:
  "sort_keys (update_control_action_state w) = sort_keys w"
  by (simp add: sort_keys_def)

lemma items_upper_le: "items_upper xs name \<le> length xs"
  by (induction xs) auto

lemma items_upper_before:
  "\<forall>item \<in> set (take (items_upper xs name) xs). sort_key item \<le> name"
  by (induction xs) (auto simp: not_less)

lemma items_upper_after:
  "sorted (map sort_key xs) \<Longrightarrow> \<forall>item \<in> set (drop (items_upper xs name) xs). name < sort_key item"
proof (induction xs)
  case Nil
  then show ?case by simp
next
  case (Cons y ys)
  then show ?case by (auto simp: less_le_trans)
qed

lemma sorted_insertItem:
  assumes "sorted (map sort_key xs)" and "sort_key x = name"
  shows "sorted (map sort_key (insertItem (items_upper xs name) x xs))"
proof -
  let ?n = "items_upper xs name"
  have "sorted (map sort_key (take ?n xs))" "sorted (map sort_key (drop ?n xs))"
    using assms(1) by (simp_all add: take_map [symmetric] drop_map [symmetric] sorted_wrt_take sorted_wrt_drop)
  moreover have "\<forall>a \<in> set (take ?n xs). \<forall>b \<in> set (drop ?n xs). sort_key a \<le> sort_key b"
    using items_upper_before [of xs name] items_upper_after [OF assms(1), of name]
    by (meson less_imp_le order_trans)
  ultimately show ?thesis
    using items_upper_before [of xs name] items_upper_after [OF assms(1), of name] assms(2)
    by (auto simp: insertItem_def sorted_append less_imp_le)
qed

lemma sorted_takeItem:
  assumes "sorted (map f xs)"
  shows "sorted (map f (takeItem r xs))"
proof (cases "0 \<le> r \<and> r < int (length xs)")
  case False
  then have "takeItem r xs = xs" by (auto simp: takeItem_def)
  with assms show ?thesis by simp
next
  case True
  let ?n = "nat r"
  have xs: "xs = take ?n xs @ drop ?n xs" by simp
  have "sorted (map f (take ?n xs) @ map f (drop ?n xs))"
    using assms by (simp flip: map_append)
  then have a: "sorted (map f (take ?n xs))"
    and b: "sorted (map f (drop ?n xs))"
    and c: "\<forall>a \<in> set (take ?n xs). \<forall>b \<in> set (drop ?n xs). f a \<le> f b"
    by (auto simp: sorted_append)
  have d: "drop (Suc ?n) xs = drop 1 (drop ?n xs)" by simp
  have "sorted (drop 1 (map f (drop ?n xs)))"
    using b by (rule sorted_wrt_drop)
  then have "sorted (map f (drop (Suc ?n) xs))"
    unfolding d by (simp only: drop_map)
  moreover have "set (drop (Suc ?n) xs) \<subseteq> set (drop ?n xs)"
    unfolding d by (rule set_drop_subset)
  ultimately show ?thesis
    using True a c by (auto simp: takeItem_def sorted_append)
qed

lemma sort_keys_add_torrent_item:
  "sorted (sort_keys w) \<Longrightarrow> sorted (sort_keys (add_torrent_item w st))"
  by (simp add: sort_keys_def add_torrent_item_def Let_def sorted_insertItem)

lemma sort_keys_remove_torrent_item:
  "sorted (sort_keys w) \<Longrightarrow> remove_torrent_item w h = Inr w' \<Longrightarrow> sorted (sort_keys w')"
  by (auto simp: sort_keys_def remove_torrent_item_def sorted_takeItem split: option.splits)

lemma sorted_run_ops: "sorted (sort_keys w) \<Longrightarrow> sorted (sort_keys (fst (run_ops w ops)))"
proof (induction w ops rule: run_ops.induct)
  case (1 w)
  then show ?case by simp
next
  case (2 w st ops)
  then show ?case by (simp add: sort_keys_add_torrent_item)
next
  case (3 w h ops)
  then show ?case
    by (cases "remove_torrent_item w h") (auto dest: sort_keys_remove_torrent_item)
qed

lemma submit_selected_items:
  "fst (submit_selected action xs) =
     map (\<lambda>item. if isSelected item \<and> \<not> waiting_control_action (itemWidget item)
                  then item\<lparr>itemWidget := (itemWidget item)\<lparr>waiting_control_action := True\<rparr>\<rparr>
                  else item) xs"
  by (induction xs) (auto split: prod.splits)

lemma submit_selected_futures:
  "snd (submit_selected action xs) =
     map (\<lambda>item. (data item, invoke_control_action action (data item)))
       (filter (\<lambda>item. isSelected item \<and> \<not> waiting_control_action (itemWidget item)) xs)"
  by (induction xs) (auto split: prod.splits)

lemma submit_selected_waiting:
  "item \<in> set (fst (submit_selected action xs)) \<Longrightarrow> isSelected item
     \<Longrightarrow> waiting_control_action (itemWidget item)"
  by (auto simp: submit_selected_items split: if_splits)

lemma submit_selected_again:
  "snd (submit_selected action' (fst (submit_selected action xs))) = []"
  unfolding submit_selected_futures
  by (auto simp: filter_empty_conv dest: submit_selected_waiting)

lemma control_action_triggered_fst:
  "list_widget (fst (control_action_triggered w action)) = fst (submit_selected action (list_widget w))"
  "critical_messages (fst (control_action_triggered w action)) = critical_messages w"
  "torrent_to_item (fst (control_action_triggered w action)) = torrent_to_item w"
  by (simp_all add: control_action_triggered_def split: prod.splits)

lemma control_action_triggered_snd:
  "snd (control_action_triggered w action) = snd (submit_selected action (list_widget w))"
  by (simp add: control_action_triggered_def split: prod.splits)

lemma find_set_widget:
  "find (\<lambda>item. ident item = i) (map (set_widget i widget) xs) =
     map_option (\<lambda>item. item\<lparr>itemWidget := widget\<rparr>) (find (\<lambda>item. ident item = i) xs)"
  by (induction xs) (auto simp: set_widget_def)

lemma update_torrent_item_widget:
  assumes "widget_of w (info_hash st) = Some widget"
  shows "\<exists>w'. update_torrent_item w st = Inr w' \<and>
           widget_of w' (info_hash st) =
             Some \<lparr>state = st,
                   waiting_control_action =
                     (if paused (state widget) \<noteq> paused st then False
                      else waiting_control_action widget)\<rparr>"
proof -
  from assms obtain i item where i: "torrent_to_item w (info_hash st) = Some i"
    and item: "find (\<lambda>item. ident item = i) (list_widget w) = Some item"
    and widget: "itemWidget item = widget"
    by (auto simp: widget_of_def split: option.splits)
  show ?thesis
    using i item widget
    by (simp add: update_torrent_item_def widget_of_def Let_def find_set_widget)
qed

lemma add_torrent_files_Inl:
  "from_file p = Inl err \<Longrightarrow>
     add_torrent_files from_file abs_dirname w (p # ps) =
       add_torrent_files from_file abs_dirname (error_happened w (failed_to_add p) err) ps"
  by simp

lemma add_torrent_files_present:
  "from_file p = Inr h \<Longrightarrow> torrent_to_item w h \<noteq> None \<Longrightarrow>
     add_torrent_files from_file abs_dirname w (p # ps) =
       add_torrent_files from_file abs_dirname
         (error_happened (w\<lparr>last_torrent_dir := Some (abs_dirname p)\<rparr>) (failed_to_add p)
            (ValueError ''This torrent is already added'')) ps"
  by (simp add: Let_def)

lemma add_torrent_files_absent:
  "from_file p = Inr h \<Longrightarrow> torrent_to_item w h = None \<Longrightarrow>
     fst (add_torrent_files from_file abs_dirname w (p # ps)) =
       fst (add_torrent_files from_file abs_dirname (w\<lparr>last_torrent_dir := Some (abs_dirname p)\<rparr>) ps) \<and>
     snd (add_torrent_files from_file abs_dirname w (p # ps)) =
       p # snd (add_torrent_files from_file abs_dirname (w\<lparr>last_torrent_dir := Some (abs_dirname p)\<rparr>) ps)"
  by (simp add: Let_def split: prod.splits)

lemma add_torrent_files_facts:
  "list_widget (fst (add_torrent_files from_file abs_dirname w paths)) = list_widget w \<and>
   torrent_to_item (fst (add_torrent_files from_file abs_dirname w paths)) = torrent_to_item w \<and>
   set (critical_messages w)
     \<subseteq> set (critical_messages (fst (add_torrent_files from_file abs_dirname w paths))) \<and>
   (\<forall>path \<in> set (snd (add_torrent_files from_file abs_dirname w paths)).
      \<exists>h. from_file path = Inr h \<and> torrent_to_item w h = None) \<and>
   (\<forall>path \<in> set paths. \<forall>h. from_file path = Inr h \<and> torrent_to_item w h \<noteq> None \<longrightarrow>
      (failed_to_add path, ''This torrent is already added'')
        \<in> set (critical_messages (fst (add_torrent_files from_file abs_dirname w paths))))"
  (is "?P w paths")
proof (induction paths arbitrary: w)
  case Nil
  show ?case by simp
next
  case (Cons p ps)
  show ?case
  proof (cases "from_file p")
    case (Inl err)
    let ?w = "error_happened w (failed_to_add p) err"
    have same: "torrent_to_item ?w = torrent_to_item w" "list_widget ?w = list_widget w"
      and sub: "set (critical_messages w) \<subseteq> set (critical_messages ?w)"
      by (auto simp: error_happened_def)
    from Cons.IH [of ?w] same sub Inl show ?thesis
      unfolding add_torrent_files_Inl [of from_file p err abs_dirname w ps, OF Inl] by auto
  next
    case (Inr h)
    show ?thesis
    proof (cases "torrent_to_item w h = None")
      case True
      let ?w = "w\<lparr>last_torrent_dir := Some (abs_dirname p)\<rparr>"
      have same: "torrent_to_item ?w = torrent_to_item w" "list_widget ?w = list_widget w"
        "critical_messages ?w = critical_messages w"
        by simp_all
      note step = add_torrent_files_absent [of from_file p h w abs_dirname ps, OF Inr True]
      from Cons.IH [of ?w] same Inr True show ?thesis
        unfolding step [THEN conjunct1] step [THEN conjunct2] by auto
    next
      case False
      let ?w = "error_happened (w\<lparr>last_torrent_dir := Some (abs_dirname p)\<rparr>) (failed_to_add p)
                  (ValueError ''This torrent is already added'')"
      have same: "torrent_to_item ?w = torrent_to_item w" "list_widget ?w = list_widget w"
        and sub: "set (critical_messages w) \<subseteq> set (critical_messages ?w)"
        and new: "(failed_to_add p, ''This torrent is already added'') \<in> set (critical_messages ?w)"
        by (auto simp: error_happened_def)
      from Cons.IH [of ?w] same sub new Inr False show ?thesis
        unfolding add_torrent_files_present [of from_file p h w abs_dirname ps, OF Inr False] by auto
    qed
  qed
qed

section \<open>The claims about the selection tree\<close>

text \<open>
  C1: after any sequence of clicks, with any state landing on the clicked item, every
  directory item is checked iff all its children are checked, unchecked iff all its
  children are unchecked, and partially checked otherwise. This holds from the tree the
  dialog builds out of a file tree whose directories have entries, and from every tree
  in which it holds already.
\<close>

theorem clicks_keep_rule:
  "(has_entries node \<longrightarrow> interiors_derived (clicks (traverse_file_tree name node) ops)) \<and>
   (interiors_derived t \<longrightarrow> interiors_derived (clicks t ops))"
  by (simp add: interiors_derived_clicks interiors_derived_traverse_file_tree)

theorem clicks_keep_rule_witness:
  "has_entries example_tree \<and>
   interiors_derived (clicks (traverse_file_tree ''root'' example_tree)
      [([1, 0], Unchecked), ([1], PartiallyChecked), ([0], Unchecked)]) \<and>
   interiors_derived (item_clicked (traverse_file_tree ''root'' example_tree) [1, 0] Unchecked) \<and>
   checkState (item_clicked (traverse_file_tree ''root'' example_tree) [1, 0] Unchecked)
     = PartiallyChecked \<and>
   interiors_derived
     (clicks (item_clicked (traverse_file_tree ''root'' example_tree) [1, 0] Unchecked)
        [([1], Checked), ([], Unchecked)])"
proof -
  have e: "has_entries example_tree"
    by (simp add: example_tree_def)
  have h: "interiors_derived
      (item_clicked (traverse_file_tree ''root'' example_tree) [1, 0] Unchecked)"
    by (simp add: example_tree_def item_clicked_def update_checkboxes_def new_state_def
        pure_rule_def)
  have s: "checkState (item_clicked (traverse_file_tree ''root'' example_tree) [1, 0] Unchecked)
     = PartiallyChecked"
    by (simp add: example_tree_def item_clicked_def update_checkboxes_def new_state_def)
  from e h s
    clicks_keep_rule
      [of example_tree "''root''"
          "[([1, 0], Unchecked), ([1], PartiallyChecked), ([0], Unchecked)]"
          "item_clicked (traverse_file_tree ''root'' example_tree) [1, 0] Unchecked"]
    clicks_keep_rule
      [of example_tree "''root''" "[([1], Checked), ([], Unchecked)]"
          "item_clicked (traverse_file_tree ''root'' example_tree) [1, 0] Unchecked"]
  show ?thesis by blast
qed

text \<open>
  C4, as stated, fails: in the tree the dialog opens with, \<open>a.txt\<close> is checked; checking
  it and then unchecking it leaves it unchecked and the root partially checked.
\<close>

theorem check_uncheck_counterexample:
  "item_clicked (item_clicked (traverse_file_tree ''root'' example_tree) [0] Checked) [0] Unchecked
     \<noteq> traverse_file_tree ''root'' example_tree"
  by (simp add: example_tree_def item_clicked_def update_checkboxes_def new_state_def)

text \<open>
  C4, amended: in a tree that satisfies the rule, checking an item that is unchecked and
  then unchecking it gives back the tree as it was, in the subtree of the item, at all
  its ancestors and everywhere else.
\<close>

theorem check_uncheck_roundtrip:
  "consistent t \<Longrightarrow> map_option checkState (item_at t path) = Some Unchecked
     \<Longrightarrow> item_clicked (item_clicked t path Checked) path Unchecked = t"
  by (rule check_uncheck_restores)

theorem check_uncheck_roundtrip_witness:
  "consistent (item_clicked (traverse_file_tree ''root'' example_tree) [1] Unchecked) \<and>
   map_option checkState
     (item_at (item_clicked (traverse_file_tree ''root'' example_tree) [1] Unchecked) [1])
       = Some Unchecked \<and>
   item_clicked
     (item_clicked (item_clicked (traverse_file_tree ''root'' example_tree) [1] Unchecked)
        [1] Checked) [1] Unchecked
     = item_clicked (traverse_file_tree ''root'' example_tree) [1] Unchecked"
proof -
  have h1: "consistent (item_clicked (traverse_file_tree ''root'' example_tree) [1] Unchecked)"
    by (simp add: example_tree_def item_clicked_def update_checkboxes_def new_state_def
        pure_rule_def)
  have h2: "map_option checkState
     (item_at (item_clicked (traverse_file_tree ''root'' example_tree) [1] Unchecked) [1])
       = Some Unchecked"
    by (simp add: example_tree_def item_clicked_def update_checkboxes_def new_state_def)
  from h1 h2 check_uncheck_roundtrip [OF h1 h2] show ?thesis by blast
qed

text \<open>
  C9, as stated, fails in its example: the dialog builds the example tree with every
  item checked, and checking \<open>dir\<close> there leaves 3 files and 350 bytes selected and the
  root checked, not 2 files, 250 bytes and a partially checked root.
\<close>

theorem example_from_dialog_counterexample:
  "selectedLeaves (clicks (traverse_file_tree ''root'' example_tree) [([1], Checked)]) = (3, 350) \<and>
   selectedLeaves (clicks (traverse_file_tree ''root'' example_tree) [([1], Checked)]) \<noteq> (2, 250) \<and>
   checkState (clicks (traverse_file_tree ''root'' example_tree) [([1], Checked)]) = Checked \<and>
   checkState (clicks (traverse_file_tree ''root'' example_tree) [([1], Checked)])
     \<noteq> PartiallyChecked"
  by (simp add: example_tree_def item_clicked_def update_checkboxes_def new_state_def
      selectedLeaves_def)

text \<open>
  C9, amended: over a tree whose file items are all checked, the selection is the number
  of file items and the sum of their lengths; over a tree whose file items are all
  unchecked it is (0, 0). In the example tree with nothing selected, which is the tree
  of the dialog after its root has been unchecked, checking \<open>dir\<close> selects 2 files and
  250 bytes and leaves the root partially checked; checking \<open>a.txt\<close> after that selects
  3 files and 350 bytes and the root is checked.
\<close>

theorem selectedLeaves_totals:
  "(list_all (\<lambda>(len, st). st = Checked) (file_items t) \<longrightarrow>
      selectedLeaves t = (length (file_items t), sum_list (map fst (file_items t)))) \<and>
   (list_all (\<lambda>(len, st). st = Unchecked) (file_items t) \<longrightarrow> selectedLeaves t = (0, 0)) \<and>
   selectedLeaves (clicks (traverse_file_tree ''root'' example_tree)
      [([], Unchecked), ([1], Checked)]) = (2, 250) \<and>
   checkState (clicks (traverse_file_tree ''root'' example_tree)
      [([], Unchecked), ([1], Checked)]) = PartiallyChecked \<and>
   selectedLeaves (clicks (traverse_file_tree ''root'' example_tree)
      [([], Unchecked), ([1], Checked), ([0], Checked)]) = (3, 350) \<and>
   checkState (clicks (traverse_file_tree ''root'' example_tree)
      [([], Unchecked), ([1], Checked), ([0], Checked)]) = Checked"
proof -
  have a: "list_all (\<lambda>(len, st). st = Checked) xs \<Longrightarrow>
      filter (\<lambda>(len, st). st = Checked) xs = xs" for xs :: "(nat \<times> CheckState) list"
    by (induction xs) auto
  have b: "list_all (\<lambda>(len, st). st = Unchecked) xs \<Longrightarrow>
      filter (\<lambda>(len, st). st = Checked) xs = []" for xs :: "(nat \<times> CheckState) list"
    by (induction xs) auto
  have ex: "clicks (traverse_file_tree ''root'' example_tree) [([], Unchecked), ([1], Checked)]
      = Item ''root'' PartiallyChecked None
          [Item ''a.txt'' Unchecked (Some 100) [],
           Item ''dir'' Checked None
             [Item ''b.txt'' Checked (Some 200) [], Item ''c.txt'' Checked (Some 50) []]]"
    by (simp add: example_tree_def item_clicked_def update_checkboxes_def new_state_def)
  have ex2: "clicks (traverse_file_tree ''root'' example_tree)
        [([], Unchecked), ([1], Checked), ([0], Checked)]
      = Item ''root'' Checked None
          [Item ''a.txt'' Checked (Some 100) [],
           Item ''dir'' Checked None
             [Item ''b.txt'' Checked (Some 200) [], Item ''c.txt'' Checked (Some 50) []]]"
    by (simp add: example_tree_def item_clicked_def update_checkboxes_def new_state_def)
  show ?thesis
    unfolding ex ex2
    by (simp add: selectedLeaves_def selected_totals_eq a b)
qed

theorem selectedLeaves_totals_witness:
  "list_all (\<lambda>(len, st). st = Checked) (file_items (traverse_file_tree ''root'' example_tree)) \<and>
   selectedLeaves (traverse_file_tree ''root'' example_tree) = (3, 350) \<and>
   list_all (\<lambda>(len, st). st = Unchecked)
     (file_items (item_clicked (traverse_file_tree ''root'' example_tree) [] Unchecked)) \<and>
   selectedLeaves (item_clicked (traverse_file_tree ''root'' example_tree) [] Unchecked) = (0, 0)"
proof -
  have h1: "list_all (\<lambda>(len, st). st = Checked)
      (file_items (traverse_file_tree ''root'' example_tree))"
    by (simp add: example_tree_def)
  have h2: "list_all (\<lambda>(len, st). st = Unchecked)
     (file_items (item_clicked (traverse_file_tree ''root'' example_tree) [] Unchecked))"
    by (simp add: example_tree_def item_clicked_Nil)
  have l: "(length (file_items (traverse_file_tree ''root'' example_tree)),
      sum_list (map fst (file_items (traverse_file_tree ''root'' example_tree)))) = (3, 350)"
    by (simp add: example_tree_def)
  from h1 h2 l selectedLeaves_totals [of "traverse_file_tree ''root'' example_tree"]
    selectedLeaves_totals [of "item_clicked (traverse_file_tree ''root'' example_tree) [] Unchecked"]
  show ?thesis by simp
qed


section \<open>The claims about the torrent list, the dispatcher, stop and main\<close>

text \<open>
  C2. With file names on the command line and a running instance that accepts the
  connection and the message, \<open>main\<close> has already created and shown the window and
  started its own control thread before it probes; the result of the probe is not
  looked at, and the process goes on into \<open>app.exec_()\<close> and ends with what that
  returns. The claim asks for no window, no engine and exit code 0 there.
\<close>

theorem main_hosts_although_forwarded:
  "main \<lparr>connect = None, execute = (\<lambda>names. None), exec_result = r\<rparr>
        \<lparr>debug = False, filenames = [''a.torrent'']\<rparr> =
     ([logging_disabled, QApplication_created, ControlManagerThread_created, MainWindow_shown,
       control_thread_started, lastWindowClosed_connected, ControlClient_entered,
       suggest_torrents_sent [''a.torrent''], app_exec],
      sys_exit r)"
  by (simp add: main_def find_another_daemon_def)




text \<open>
  C5, as stated, fails: an action that raises \<open>RuntimeError\<close> ends the coroutine with that
  exception, and the foreground shows no message for it.
\<close>

theorem other_failure_counterexample:
  "snd (control_action_triggered example_window action_fails) =
     [(''h1'', Inl (RuntimeError ''engine failure''))] \<and>
   critical_messages (fst (control_action_triggered example_window action_fails)) = []"
  by (simp add: example_window_def select_row_def add_torrent_item_def new_window_def
      ubuntu_def insertItem_def control_action_triggered_def invoke_control_action_def
      action_fails_def update_control_action_state_def selectedItems_def)

text \<open>
  C5, amended: a \<open>ValueError\<close> that the action raises, at the call or when its coroutine
  is awaited, is swallowed. Any other exception leaves the coroutine; it ends in a
  future that the foreground does not keep, and triggering an action adds no message
  to those shown, whatever the action does.
\<close>

theorem invalid_state_swallowed:
  "(action h = Raises e \<or> action h = Coroutine (Some e) \<longrightarrow>
      invoke_control_action action h = (if is_ValueError e then Inr () else Inl e)) \<and>
   critical_messages (fst (control_action_triggered w action)) = critical_messages w"
  by (auto simp: invoke_control_action_def control_action_triggered_fst)

theorem invalid_state_swallowed_witness:
  "invoke_control_action (\<lambda>h. Raises (ValueError ''not paused'')) ''h1'' = Inr () \<and>
   invoke_control_action (\<lambda>h. Coroutine (Some (KeyError ''h1''))) ''h1'' = Inl (KeyError ''h1'') \<and>
   critical_messages (fst (control_action_triggered example_window action_fails)) =
     critical_messages example_window"
  using invalid_state_swallowed
          [of "\<lambda>h. Raises (ValueError ''not paused'')" "''h1''" "ValueError ''not paused''"]
        invalid_state_swallowed
          [of "\<lambda>h. Coroutine (Some (KeyError ''h1''))" "''h1''" "KeyError ''h1''"
              example_window]
        invalid_state_swallowed [of action_fails "''h1''" "RuntimeError ''engine failure''"
              example_window]
  by simp

text \<open>
  C6, as stated, fails in its last part: the torrent is running and an action is
  pending for it; a state update in which it is still running leaves the flag set.
\<close>

theorem pending_flag_counterexample:
  "widget_of (fst (control_action_triggered example_window action_returns)) ''h1'' =
     Some \<lparr>state = ubuntu, waiting_control_action = True\<rparr> \<and>
   \<not> isl (update_torrent_item (fst (control_action_triggered example_window action_returns))
            ubuntu) \<and>
   widget_of
     (projr (update_torrent_item (fst (control_action_triggered example_window action_returns))
               ubuntu)) ''h1'' =
     Some \<lparr>state = ubuntu, waiting_control_action = True\<rparr>"
  by (simp add: example_window_def select_row_def add_torrent_item_def new_window_def
      ubuntu_def insertItem_def control_action_triggered_def invoke_control_action_def
      action_returns_def update_control_action_state_def selectedItems_def widget_of_def
      update_torrent_item_def set_widget_def)

text \<open>
  C6, amended: when an action is triggered, every selected item is marked as waiting
  before the handler returns; the submissions are exactly those for the selected items
  that were not waiting, so triggering again submits nothing; a state update for a
  torrent clears the flag when its paused value differs from the one the widget holds,
  and leaves the flag as it is otherwise.
\<close>

theorem pending_flag:
  "(\<forall>item \<in> set (list_widget (fst (control_action_triggered w action))).
      isSelected item \<longrightarrow> waiting_control_action (itemWidget item)) \<and>
   map fst (snd (control_action_triggered w action)) =
     map data (filter (\<lambda>item. isSelected item \<and> \<not> waiting_control_action (itemWidget item))
                 (list_widget w)) \<and>
   snd (control_action_triggered (fst (control_action_triggered w action)) action') = [] \<and>
   (widget_of w (info_hash st) = Some widget \<longrightarrow>
      (\<exists>w'. update_torrent_item w st = Inr w' \<and>
            widget_of w' (info_hash st) =
              Some \<lparr>state = st,
                    waiting_control_action =
                      (if paused (state widget) \<noteq> paused st then False
                       else waiting_control_action widget)\<rparr>))"
proof -
  have "map fst (snd (control_action_triggered w action)) =
     map data (filter (\<lambda>item. isSelected item \<and> \<not> waiting_control_action (itemWidget item))
                 (list_widget w))"
    by (simp add: control_action_triggered_snd submit_selected_futures comp_def)
  moreover have "snd (control_action_triggered (fst (control_action_triggered w action)) action') = []"
    by (simp add: control_action_triggered_snd control_action_triggered_fst submit_selected_again)
  ultimately show ?thesis
    using update_torrent_item_widget [of w st widget]
    by (auto simp: control_action_triggered_fst dest: submit_selected_waiting)
qed

theorem pending_flag_witness:
  "widget_of (fst (control_action_triggered example_window action_returns)) ''h1'' =
     Some \<lparr>state = ubuntu, waiting_control_action = True\<rparr> \<and>
   (\<exists>w'. update_torrent_item (fst (control_action_triggered example_window action_returns))
           (ubuntu\<lparr>paused := True\<rparr>) = Inr w' \<and>
         widget_of w' ''h1'' =
           Some \<lparr>state = ubuntu\<lparr>paused := True\<rparr>, waiting_control_action = False\<rparr>) \<and>
   map fst (snd (control_action_triggered example_window action_returns)) = [''h1'']"
proof -
  let ?w = "fst (control_action_triggered example_window action_returns)"
  have h: "widget_of ?w (info_hash (ubuntu\<lparr>paused := True\<rparr>)) =
      Some \<lparr>state = ubuntu, waiting_control_action = True\<rparr>"
    by (simp add: example_window_def select_row_def add_torrent_item_def new_window_def
        ubuntu_def insertItem_def control_action_triggered_def invoke_control_action_def
        action_returns_def update_control_action_state_def selectedItems_def widget_of_def)
  have l: "map data (filter (\<lambda>item. isSelected item \<and> \<not> waiting_control_action (itemWidget item))
                 (list_widget example_window)) = [''h1'']"
    by (simp add: example_window_def select_row_def add_torrent_item_def new_window_def
        ubuntu_def insertItem_def update_control_action_state_def selectedItems_def)
  have i: "info_hash (ubuntu\<lparr>paused := True\<rparr>) = ''h1''" "paused ubuntu = False"
    by (simp_all add: ubuntu_def)
  from h l
    pending_flag [of ?w action_returns action_returns "ubuntu\<lparr>paused := True\<rparr>"
      "\<lparr>state = ubuntu, waiting_control_action = True\<rparr>"]
    pending_flag [of example_window action_returns action_returns ubuntu
      "\<lparr>state = ubuntu, waiting_control_action = True\<rparr>"]
  show ?thesis by (simp add: i)
qed

text \<open>
  C7: after any run of insertions and removals the list is sorted by sort key, from a
  sorted list and so from the empty list of a new window; and an insertion into a
  sorted list puts the new item behind every item whose key is less than or equal to
  its own and before every item whose key is greater, so behind the items with an equal
  key.
\<close>

theorem list_stays_sorted:
  "(sorted (sort_keys w) \<longrightarrow> sorted (sort_keys (fst (run_ops w ops)))) \<and>
   sorted (sort_keys (fst (run_ops new_window ops))) \<and>
   (sorted (sort_keys w) \<longrightarrow>
      (\<exists>before new after.
         list_widget w = before @ after \<and>
         list_widget (add_torrent_item w st) = before @ new # after \<and>
         itemWidget new = \<lparr>state = st, waiting_control_action = False\<rparr> \<and>
         (\<forall>item \<in> set before. sort_key item \<le> suggested_name st) \<and>
         (\<forall>item \<in> set after. suggested_name st < sort_key item)))"
proof -
  have "sorted (sort_keys new_window)" by (simp add: sort_keys_def new_window_def)
  then have a: "sorted (sort_keys (fst (run_ops new_window ops)))" by (rule sorted_run_ops)
  have b: "\<exists>before new after.
         list_widget w = before @ after \<and>
         list_widget (add_torrent_item w st) = before @ new # after \<and>
         itemWidget new = \<lparr>state = st, waiting_control_action = False\<rparr> \<and>
         (\<forall>item \<in> set before. sort_key item \<le> suggested_name st) \<and>
         (\<forall>item \<in> set after. suggested_name st < sort_key item)"
    if s: "sorted (sort_keys w)"
  proof -
    let ?n = "items_upper (list_widget w) (suggested_name st)"
    let ?new = "\<lparr>ident = allocated w, data = info_hash st, isSelected = False,
                  itemWidget = \<lparr>state = st, waiting_control_action = False\<rparr>\<rparr>"
    have "list_widget w = take ?n (list_widget w) @ drop ?n (list_widget w)" by simp
    moreover have "list_widget (add_torrent_item w st) =
        take ?n (list_widget w) @ ?new # drop ?n (list_widget w)"
      by (simp add: add_torrent_item_def insertItem_def Let_def)
    moreover have "itemWidget ?new = \<lparr>state = st, waiting_control_action = False\<rparr>" by simp
    moreover note items_upper_before [of "list_widget w" "suggested_name st"]
    moreover from s have "\<forall>item \<in> set (drop ?n (list_widget w)). suggested_name st < sort_key item"
      by (intro items_upper_after) (simp add: sort_keys_def)
    ultimately show ?thesis by blast
  qed
  from a b show ?thesis by (simp add: sorted_run_ops)
qed

theorem list_stays_sorted_witness:
  "sorted (sort_keys (add_torrent_item new_window ubuntu)) \<and>
   sorted (sort_keys (fst (run_ops (add_torrent_item new_window ubuntu)
      [Insert \<lparr>info_hash = ''h2'', suggested_name = ''debian.iso'', paused = False\<rparr>,
       Insert \<lparr>info_hash = ''h3'', suggested_name = ''ubuntu.iso'', paused = True\<rparr>,
       Remove ''h1'']))) \<and>
   map ident (list_widget (fst (run_ops new_window
      [Insert \<lparr>info_hash = ''h1'', suggested_name = ''b'', paused = False\<rparr>,
       Insert \<lparr>info_hash = ''h2'', suggested_name = ''a'', paused = False\<rparr>,
       Insert \<lparr>info_hash = ''h3'', suggested_name = ''b'', paused = True\<rparr>,
       Insert \<lparr>info_hash = ''h4'', suggested_name = ''ab'', paused = True\<rparr>,
       Remove ''h2'']))) = [3, 0, 2]"
proof -
  have h: "sorted (sort_keys (add_torrent_item new_window ubuntu))"
    by (simp add: sort_keys_def add_torrent_item_def new_window_def insertItem_def)
  have e: "map ident (list_widget (fst (run_ops new_window
      [Insert \<lparr>info_hash = ''h1'', suggested_name = ''b'', paused = False\<rparr>,
       Insert \<lparr>info_hash = ''h2'', suggested_name = ''a'', paused = False\<rparr>,
       Insert \<lparr>info_hash = ''h3'', suggested_name = ''b'', paused = True\<rparr>,
       Insert \<lparr>info_hash = ''h4'', suggested_name = ''ab'', paused = True\<rparr>,
       Remove ''h2'']))) = [3, 0, 2]"
    by (simp add: new_window_def add_torrent_item_def insertItem_def remove_torrent_item_def
        takeItem_def)
  from h e list_stays_sorted [of "add_torrent_item new_window ubuntu"] show ?thesis by blast
qed

text \<open>
  C8, as stated, fails: the insertion, \<open>_add_torrent_item\<close>, tests nothing. Called for
  an info hash that is already a key, it adds a second row for it and points the
  dictionary entry to the new row.
\<close>

theorem insert_duplicate_counterexample:
  "torrent_to_item example_window (info_hash ubuntu) = Some 0 \<and>
   map data (list_widget (add_torrent_item example_window ubuntu)) = [''h1'', ''h1''] \<and>
   map ident (list_widget (add_torrent_item example_window ubuntu)) = [0, 1] \<and>
   torrent_to_item (add_torrent_item example_window ubuntu) (info_hash ubuntu) = Some 1"
  by (simp add: example_window_def select_row_def add_torrent_item_def new_window_def
      ubuntu_def insertItem_def update_control_action_state_def selectedItems_def)

text \<open>
  C8, amended: the rejection is the one of \<open>add_torrent_files\<close>, ahead of the dialog and
  so ahead of any insertion. For a path whose torrent has an info hash that is a key of
  the collection no dialog is opened and the message \<open>This torrent is already added\<close>
  is shown; a dialog is opened only for a path whose info hash is not a key; the list
  and the dictionary come back as they were. The insertion itself has no check: it
  keeps the rows that are there, always adds one row with the info hash as its data, and
  lets the dictionary entry of the info hash name the new row, whether or not the info
  hash was a key before.
\<close>

theorem duplicate_rejected:
  "(\<forall>path \<in> set paths. \<forall>h. from_file path = Inr h \<and> torrent_to_item w h \<noteq> None \<longrightarrow>
      path \<notin> set (snd (add_torrent_files from_file abs_dirname w paths)) \<and>
      (failed_to_add path, ''This torrent is already added'')
        \<in> set (critical_messages (fst (add_torrent_files from_file abs_dirname w paths)))) \<and>
   (\<forall>path \<in> set (snd (add_torrent_files from_file abs_dirname w paths)).
      \<exists>h. from_file path = Inr h \<and> torrent_to_item w h = None) \<and>
   list_widget (fst (add_torrent_files from_file abs_dirname w paths)) = list_widget w \<and>
   torrent_to_item (fst (add_torrent_files from_file abs_dirname w paths)) = torrent_to_item w \<and>
   (\<exists>before new after.
      list_widget w = before @ after \<and>
      list_widget (add_torrent_item w st) = before @ new # after \<and>
      ident new = allocated w \<and> data new = info_hash st) \<and>
   torrent_to_item (add_torrent_item w st) = (torrent_to_item w)(info_hash st \<mapsto> allocated w)"
proof -
  let ?n = "items_upper (list_widget w) (suggested_name st)"
  let ?new = "\<lparr>ident = allocated w, data = info_hash st, isSelected = False,
                itemWidget = \<lparr>state = st, waiting_control_action = False\<rparr>\<rparr>"
  have "list_widget w = take ?n (list_widget w) @ drop ?n (list_widget w)" by simp
  moreover have "list_widget (add_torrent_item w st) =
      take ?n (list_widget w) @ ?new # drop ?n (list_widget w)"
    by (simp add: add_torrent_item_def insertItem_def Let_def)
  moreover have "ident ?new = allocated w \<and> data ?new = info_hash st" by simp
  ultimately have ins: "\<exists>before new after.
      list_widget w = before @ after \<and>
      list_widget (add_torrent_item w st) = before @ new # after \<and>
      ident new = allocated w \<and> data new = info_hash st"
    by blast
  have dict: "torrent_to_item (add_torrent_item w st) =
      (torrent_to_item w)(info_hash st \<mapsto> allocated w)"
    by (simp add: add_torrent_item_def Let_def)
  from add_torrent_files_facts [of from_file abs_dirname w paths]
  have files: "(\<forall>path \<in> set paths. \<forall>h. from_file path = Inr h \<and> torrent_to_item w h \<noteq> None \<longrightarrow>
      path \<notin> set (snd (add_torrent_files from_file abs_dirname w paths)) \<and>
      (failed_to_add path, ''This torrent is already added'')
        \<in> set (critical_messages (fst (add_torrent_files from_file abs_dirname w paths)))) \<and>
   (\<forall>path \<in> set (snd (add_torrent_files from_file abs_dirname w paths)).
      \<exists>h. from_file path = Inr h \<and> torrent_to_item w h = None) \<and>
   list_widget (fst (add_torrent_files from_file abs_dirname w paths)) = list_widget w \<and>
   torrent_to_item (fst (add_torrent_files from_file abs_dirname w paths)) = torrent_to_item w"
    by fastforce
  from files ins dict show ?thesis by (intro conjI) blast+
qed

theorem duplicate_rejected_witness:
  "torrent_to_item example_window ''h1'' \<noteq> None \<and>
   snd (add_torrent_files (\<lambda>path. if path = ''a.torrent'' then Inr ''h1'' else Inr ''h2'')
          (\<lambda>path. ''/home'') example_window [''a.torrent'', ''b.torrent'']) = [''b.torrent''] \<and>
   (failed_to_add ''a.torrent'', ''This torrent is already added'')
     \<in> set (critical_messages
         (fst (add_torrent_files (\<lambda>path. if path = ''a.torrent'' then Inr ''h1'' else Inr ''h2'')
                 (\<lambda>path. ''/home'') example_window [''a.torrent'', ''b.torrent'']))) \<and>
   torrent_to_item (add_torrent_item example_window ubuntu) ''h1'' = Some 1"
proof -
  have h: "torrent_to_item example_window ''h1'' \<noteq> None"
    "torrent_to_item example_window ''h2'' = None"
    "allocated example_window = 1" "info_hash ubuntu = ''h1''"
    by (simp_all add: example_window_def select_row_def add_torrent_item_def new_window_def
        ubuntu_def update_control_action_state_def split: prod.splits)
  have d: "snd (add_torrent_files (\<lambda>path. if path = ''a.torrent'' then Inr ''h1'' else Inr ''h2'')
          (\<lambda>path. ''/home'') example_window [''a.torrent'', ''b.torrent'']) = [''b.torrent'']"
    using h by (simp add: Let_def error_happened_def)
  from h d
    duplicate_rejected [of "[''a.torrent'', ''b.torrent'']"
      "\<lambda>path. if path = ''a.torrent'' then Inr ''h1'' else Inr ''h2''" example_window
      "\<lambda>path. ''/home''" ubuntu]
  show ?thesis by simp
qed

text \<open>
  C10: a state update for an info hash that is not a key of the collection gives the
  window back as it is and raises nothing, while removing that info hash raises
  \<open>KeyError\<close>.
\<close>

theorem update_absent_is_noop:
  "torrent_to_item w (info_hash st) = None \<Longrightarrow>
     update_torrent_item w st = Inr w \<and>
     remove_torrent_item w (info_hash st) = Inl (KeyError (info_hash st))"
  by (simp add: update_torrent_item_def remove_torrent_item_def)

theorem update_absent_is_noop_witness:
  "torrent_to_item example_window (info_hash (ubuntu\<lparr>info_hash := ''h9''\<rparr>)) = None \<and>
   update_torrent_item example_window (ubuntu\<lparr>info_hash := ''h9''\<rparr>) = Inr example_window \<and>
   remove_torrent_item example_window ''h9'' = Inl (KeyError ''h9'')"
proof -
  have h: "torrent_to_item example_window (info_hash (ubuntu\<lparr>info_hash := ''h9''\<rparr>)) = None"
    by (simp add: example_window_def select_row_def add_torrent_item_def new_window_def
        ubuntu_def update_control_action_state_def split: prod.splits)
  from h update_absent_is_noop [OF h] show ?thesis by simp
qed

end
